theory Spec2Isabelle
  imports Complex_Main "HOL-Library.Word"
begin

section \<open>Data model of the multi-prompt video analysis core (src/src/App.jsx)\<close>

text \<open>
  A JavaScript string is a sequence of UTF-16 code units. String concatenation is list
  append, \<open>.length\<close> is the list length, and a string is falsy exactly when it is empty.
\<close>

type_synonym jsstring = "16 word list"

definition str :: "string \<Rightarrow> jsstring" where
  "str cs = map of_char cs"

text \<open>
  \<open>String.prototype.trim\<close> strips the ECMAScript white space and line terminator code
  units from both ends.
\<close>

definition isWhiteSpace :: "16 word \<Rightarrow> bool" where
  "isWhiteSpace c \<longleftrightarrow>
     c \<in> {0x0009, 0x000A, 0x000B, 0x000C, 0x000D, 0x0020, 0x00A0, 0x1680,
          0x2028, 0x2029, 0x202F, 0x205F, 0x3000, 0xFEFF}
     \<or> (0x2000 \<le> c \<and> c \<le> 0x200A)"

definition trim :: "jsstring \<Rightarrow> jsstring" where
  "trim s = rev (dropWhile isWhiteSpace (rev (dropWhile isWhiteSpace s)))"

text \<open>Values carried by the fields of a download progress item.\<close>

datatype jsval = Str jsstring | Num rat

type_synonym item = "jsstring \<rightharpoonup> jsval"

text \<open>\<open>{ id, text, enabled }\<close>: one entry of the \<open>prompts\<close> state.\<close>

record prompt =
  prompt_id :: int
  prompt_text :: jsstring
  enabled :: bool

text \<open>The chat message built for a request: one user turn holding the frame and the text.\<close>

datatype content_part = ImagePart jsstring | TextPart jsstring

record chat_message =
  role :: jsstring
  content :: "content_part list"

text \<open>\<open>{ id, message }\<close>: one entry of \<open>pendingRequests.current\<close>.\<close>

record request =
  request_id :: int
  message :: "chat_message list"

text \<open>Messages posted to the worker, \<open>{ type, data, id }\<close>.\<close>

datatype outbound =
    Check
  | Load
  | Generate "chat_message list" int
  | Interrupt

text \<open>
  Messages received from the worker, by their \<open>status\<close> field, each with the fields that
  the listener reads in the case of that status (\<open>data\<close>, \<open>id\<close>, \<open>output\<close>, \<open>tps\<close>; the
  whole message for a progress item). The \<open>complete\<close> case reads none, so whatever
  identifier a \<open>complete\<close> message carries plays no part. \<open>Unhandled\<close> stands for any
  status the \<open>switch\<close> has no case for.
\<close>

datatype inbound =
    Loading jsstring
  | Initiate item
  | Progress item
  | Done item
  | Ready
  | Start int
  | Update int jsstring "rat option"
  | Complete
  | Error jsstring
  | Unhandled

datatype session_status = StatusLoading | StatusReady

datatype input_source = Camera | File

text \<open>
  What \<open>captureFrame\<close> reads from the page: whether the video and canvas elements are
  mounted, the \<open>readyState\<close> of the video, and the data URL that the canvas yields for the
  frame currently shown.
\<close>

record video =
  mounted :: bool
  readyState :: nat
  snapshot :: jsstring

text \<open>
  The state of the component: the React state variables and the refs, under the names of
  the source. \<open>status = None\<close> is the initial \<open>null\<close>. \<open>posted\<close> is the sequence of
  messages handed to \<open>worker.current.postMessage\<close> so far.
\<close>

record core =
  status :: "session_status option"
  error :: "jsstring option"
  loadingMessage :: jsstring
  progressItems :: "item list"
  inputSource :: input_source
  videoFileUrl :: "jsstring option"
  videoFramerate :: rat
  isAnalysisRunning :: bool
  prompts :: "prompt list"
  outputs :: "int \<rightharpoonup> jsstring"
  tps :: "rat option"
  isWorkerBusy :: bool
  pendingRequests :: "request list"
  videoRef :: video
  posted :: "outbound list"

text \<open>
  The values of state variables that a callback captured when it was created.
  \<open>processRequestQueue\<close> reads \<open>videoFramerate\<close> and \<open>isAnalysisRunning\<close> from its
  closure and \<open>triggerInference\<close> reads \<open>prompts\<close> from its closure; the refs
  (\<open>isWorkerBusy\<close>, \<open>pendingRequests\<close>, the video element) are read live.
\<close>

record closure =
  c_videoFramerate :: rat
  c_isAnalysisRunning :: bool
  c_prompts :: "prompt list"

definition initial_prompts :: "prompt list" where
  "initial_prompts =
     [\<lparr>prompt_id = 0, prompt_text = str ''What is the person doing?'', enabled = True\<rparr>,
      \<lparr>prompt_id = 1, prompt_text = [], enabled = True\<rparr>]"

definition initial_core :: core where
  "initial_core =
     \<lparr>status = None, error = None, loadingMessage = [], progressItems = [],
      inputSource = Camera, videoFileUrl = None, videoFramerate = 0,
      isAnalysisRunning = False, prompts = initial_prompts,
      outputs = [0 \<mapsto> [], 1 \<mapsto> []], tps = None,
      isWorkerBusy = False, pendingRequests = [],
      videoRef = \<lparr>mounted = False, readyState = 0, snapshot = []\<rparr>,
      posted = [Check]\<rparr>"

text \<open>
  The closure of the first render. The worker's message listener is installed by an effect
  with an empty dependency list, so the \<open>processRequestQueue\<close> it calls is the one of the
  first render for the whole life of the component.
\<close>

definition mount_closure :: closure where
  "mount_closure =
     \<lparr>c_videoFramerate = 0, c_isAnalysisRunning = False, c_prompts = initial_prompts\<rparr>"

text \<open>The closure of the current render: what a callback reached from the page captures.\<close>

definition current_closure :: "core \<Rightarrow> closure" where
  "current_closure s =
     \<lparr>c_videoFramerate = videoFramerate s, c_isAnalysisRunning = isAnalysisRunning s,
      c_prompts = prompts s\<rparr>"

section \<open>Operations\<close>

definition postMessage :: "outbound \<Rightarrow> core \<Rightarrow> core" where
  "postMessage m s = s\<lparr>posted := posted s @ [m]\<rparr>"

text \<open>\<open>captureFrame\<close>: \<open>None\<close> is the \<open>null\<close> returned when there is nothing to draw.\<close>

definition captureFrame :: "core \<Rightarrow> jsstring option" where
  "captureFrame s =
     (if \<not> mounted (videoRef s) then None
      else if readyState (videoRef s) < 2 then None
      else Some (snapshot (videoRef s)))"

text \<open>The filter and the map of \<open>triggerInference\<close>.\<close>

definition eligible :: "prompt \<Rightarrow> bool" where
  "eligible p \<longleftrightarrow> enabled p \<and> length (trim (prompt_text p)) > 0"

definition make_request :: "jsstring \<Rightarrow> prompt \<Rightarrow> request" where
  "make_request img p =
     \<lparr>request_id = prompt_id p,
      message = [\<lparr>role = str ''user'',
                  content = [ImagePart img, TextPart (prompt_text p)]\<rparr>]\<rparr>"

definition build_requests :: "jsstring \<Rightarrow> prompt list \<Rightarrow> request list" where
  "build_requests img ps = map (make_request img) (filter eligible ps)"

text \<open>
  \<open>processRequestQueue\<close> and \<open>triggerInference\<close> call each other. The chain is finite:
  \<open>processRequestQueue\<close> calls \<open>triggerInference\<close> only on an empty queue, and
  \<open>triggerInference\<close> calls \<open>processRequestQueue\<close> only after storing a non-empty queue.
  For the same reason one closure serves both: the \<open>processRequestQueue\<close> that
  \<open>triggerInference\<close> calls is the one of its own render, and it returns without calling
  back.
\<close>

function processRequestQueue :: "closure \<Rightarrow> core \<Rightarrow> core"
  and triggerInference :: "closure \<Rightarrow> core \<Rightarrow> core" where
  "processRequestQueue cl s =
     (if length (pendingRequests s) = 0 then
        (if c_videoFramerate cl = -1 \<and> c_isAnalysisRunning cl
         then triggerInference cl (s\<lparr>isWorkerBusy := False\<rparr>)
         else s\<lparr>isWorkerBusy := False\<rparr>)
      else
        postMessage
          (Generate (message (hd (pendingRequests s))) (request_id (hd (pendingRequests s))))
          (s\<lparr>isWorkerBusy := True, pendingRequests := tl (pendingRequests s)\<rparr>))"
| "triggerInference cl s =
     (if isWorkerBusy s then s
      else case captureFrame s of
        None \<Rightarrow> s
      | Some img \<Rightarrow>
          if img = [] then s
          else if length (build_requests img (c_prompts cl)) = 0 then s
          else processRequestQueue cl
                 (s\<lparr>pendingRequests := build_requests img (c_prompts cl)\<rparr>))"
  by pat_completeness auto
termination
  by (relation "measure (\<lambda>x. case x of
         Inl (cl, s) \<Rightarrow> (if pendingRequests s = [] then 2 else 0)
       | Inr (cl, s) \<Rightarrow> 1)") auto

text \<open>
  \<open>processRequestQueue\<close> and \<open>triggerInference\<close> unfold once on every argument; the
  defining equations are taken out of the simplifier's default set and used explicitly.
\<close>

declare processRequestQueue.simps [simp del] triggerInference.simps [simp del]

text \<open>The separator written by the \<open>start\<close> case: two line feeds, fifteen dashes, a line feed.\<close>

definition separator :: jsstring where
  "separator = [0x0A, 0x0A] @ replicate 15 0x2D @ [0x0A]"

text \<open>
  \<open>prev[id] + output\<close>: string concatenation converts a missing property to the text
  \<open>undefined\<close>.
\<close>

definition to_string :: "jsstring option \<Rightarrow> jsstring" where
  "to_string v = (case v of None \<Rightarrow> str ''undefined'' | Some b \<Rightarrow> b)"

text \<open>
  \<open>onMessageReceived\<close>, the listener of the worker's \<open>message\<close> event. The closure is the
  one its \<open>processRequestQueue\<close> was created in.
\<close>

definition onMessageReceived :: "closure \<Rightarrow> inbound \<Rightarrow> core \<Rightarrow> core" where
  "onMessageReceived cl e s =
     (case e of
        Loading data \<Rightarrow> s\<lparr>status := Some StatusLoading, loadingMessage := data\<rparr>
      | Initiate data \<Rightarrow> s\<lparr>progressItems := progressItems s @ [data]\<rparr>
      | Progress data \<Rightarrow>
          s\<lparr>progressItems :=
               map (\<lambda>item. if item (str ''file'') = data (str ''file'')
                              then item ++ data else item)
                   (progressItems s)\<rparr>
      | Done data \<Rightarrow>
          s\<lparr>progressItems :=
               filter (\<lambda>item. item (str ''file'') \<noteq> data (str ''file'')) (progressItems s)\<rparr>
      | Ready \<Rightarrow> s\<lparr>status := Some StatusReady\<rparr>
      | Start i \<Rightarrow>
          s\<lparr>outputs := (outputs s)
               (i \<mapsto> (case outputs s i of
                          None \<Rightarrow> []
                        | Some b \<Rightarrow> if b \<noteq> [] then b @ separator else []))\<rparr>
      | Update i output newTps \<Rightarrow>
          s\<lparr>tps := newTps,
            outputs := (outputs s)(i \<mapsto> to_string (outputs s i) @ output)\<rparr>
      | Complete \<Rightarrow> processRequestQueue cl s
      | Error data \<Rightarrow>
          s\<lparr>error := Some data, isWorkerBusy := False, isAnalysisRunning := False,
            pendingRequests := []\<rparr>
      | Unhandled \<Rightarrow> s)"

text \<open>\<open>onErrorReceived\<close>, the listener of the worker's \<open>error\<close> event.\<close>

definition onErrorReceived :: "core \<Rightarrow> core" where
  "onErrorReceived s = s\<lparr>isWorkerBusy := False\<rparr>"

definition toggleAnalysis :: "core \<Rightarrow> core" where
  "toggleAnalysis s =
     (if isAnalysisRunning s
      then (postMessage Interrupt (s\<lparr>isAnalysisRunning := False\<rparr>))\<lparr>pendingRequests := []\<rparr>
      else s\<lparr>isAnalysisRunning := True\<rparr>)"

definition updatePrompt :: "int \<Rightarrow> jsstring \<Rightarrow> core \<Rightarrow> core" where
  "updatePrompt i newText s =
     s\<lparr>prompts := map (\<lambda>p. if prompt_id p = i then p\<lparr>prompt_text := newText\<rparr> else p)
                      (prompts s)\<rparr>"

definition clearOutput :: "int \<Rightarrow> core \<Rightarrow> core" where
  "clearOutput i s = s\<lparr>outputs := (outputs s)(i \<mapsto> [])\<rparr>"

text \<open>The \<open>onClick\<close> of the Load Model button.\<close>

definition loadModel :: "core \<Rightarrow> core" where
  "loadModel s = (postMessage Load s)\<lparr>status := Some StatusLoading\<rparr>"

text \<open>\<open>handleFileUpload\<close> with a chosen file, \<open>url\<close> being its fresh object URL.\<close>

definition handleFileUpload :: "jsstring \<Rightarrow> core \<Rightarrow> core" where
  "handleFileUpload url s = s\<lparr>videoFileUrl := Some url, isAnalysisRunning := False\<rparr>"

section \<open>The component as a transition system\<close>

text \<open>
  One event is one run of a listener or of a user interface callback, to completion.
  The page offers a control only in the panel of the matching status, so a user event on a
  control that is not rendered changes nothing. Callbacks reached from the page or from the
  interval timer are those of the current render; the worker's message listener is the
  one installed at mount. The main button's \<open>disabled\<close> attribute is taken into account
  for the part computed from state (no file chosen); the part read from the busy ref at
  render time is left out, which only adds behaviours: \<open>triggerInference\<close> tests the ref
  itself.

  \<open>IntervalTick\<close> is the timer of the periodic mode calling \<open>triggerInference\<close>;
  \<open>LoopEffect\<close> is the effect of the continuous mode calling it; both may occur at any
  moment at which the loop runs in that mode. \<open>CameraFailure\<close> is \<open>setupCamera\<close> failing to
  open the webcam. \<open>VideoChange\<close> is the page changing what the video element shows.
\<close>

datatype event =
    Message inbound
  | WorkerError
  | ClickLoadModel
  | ClickMainButton
  | IntervalTick
  | LoopEffect
  | SelectFramerate rat
  | SelectInputSource input_source
  | ChooseFile jsstring
  | EditPrompt int jsstring
  | ClickClear int
  | CameraFailure
  | VideoChange video

definition main_button_disabled :: "core \<Rightarrow> bool" where
  "main_button_disabled s \<longleftrightarrow> inputSource s = File \<and> videoFileUrl s = None"

definition step :: "event \<Rightarrow> core \<Rightarrow> core" where
  "step ev s =
     (case ev of
        Message e \<Rightarrow> onMessageReceived mount_closure e s
      | WorkerError \<Rightarrow> onErrorReceived s
      | ClickLoadModel \<Rightarrow> if status s = None then loadModel s else s
      | ClickMainButton \<Rightarrow>
          if status s = Some StatusReady \<and> \<not> main_button_disabled s
          then (if videoFramerate s = 0 then triggerInference (current_closure s) s
                else toggleAnalysis s)
          else s
      | IntervalTick \<Rightarrow>
          if isAnalysisRunning s \<and> status s = Some StatusReady \<and> videoFramerate s > 0
          then triggerInference (current_closure s) s else s
      | LoopEffect \<Rightarrow>
          if isAnalysisRunning s \<and> status s = Some StatusReady \<and> videoFramerate s = -1
          then triggerInference (current_closure s) s else s
      | SelectFramerate v \<Rightarrow>
          if status s = Some StatusReady then s\<lparr>videoFramerate := v\<rparr> else s
      | SelectInputSource src \<Rightarrow>
          if status s = Some StatusReady
          then s\<lparr>inputSource := src, isAnalysisRunning := False\<rparr> else s
      | ChooseFile url \<Rightarrow>
          if status s = Some StatusReady \<and> inputSource s = File
          then handleFileUpload url s else s
      | EditPrompt i newText \<Rightarrow>
          if status s = Some StatusReady \<and> i \<in> set (map prompt_id (prompts s))
          then updatePrompt i newText s else s
      | ClickClear i \<Rightarrow>
          if status s = Some StatusReady \<and> i \<in> set (map prompt_id (prompts s))
          then clearOutput i s else s
      | CameraFailure \<Rightarrow>
          if status s = Some StatusReady \<and> inputSource s = Camera
          then s\<lparr>error :=
                 Some (str ''Could not access webcam. Please ensure permissions are granted.'')\<rparr>
          else s
      | VideoChange v \<Rightarrow> s\<lparr>videoRef := v\<rparr>)"

fun run :: "event list \<Rightarrow> core \<Rightarrow> core" where
  "run [] s = s"
| "run (ev # evs) s = run evs (step ev s)"

definition reachable :: "core \<Rightarrow> bool" where
  "reachable s \<longleftrightarrow> (\<exists>evs. s = run evs initial_core)"

section \<open>Observing the worker boundary\<close>

text \<open>The \<open>generate\<close> message that \<open>processRequestQueue\<close> posts for a request.\<close>

definition to_generate :: "request \<Rightarrow> outbound" where
  "to_generate r = Generate (message r) (request_id r)"

fun is_generate :: "outbound \<Rightarrow> bool" where
  "is_generate (Generate m i) = True"
| "is_generate _ = False"

text \<open>The messages posted while one event is handled, and while a sequence is handled.\<close>

definition sent_by :: "event \<Rightarrow> core \<Rightarrow> outbound list" where
  "sent_by ev s = drop (length (posted s)) (posted (step ev s))"

definition sent_during :: "event list \<Rightarrow> core \<Rightarrow> outbound list" where
  "sent_during evs s = drop (length (posted s)) (posted (run evs s))"

text \<open>
  The messages by which the worker reports the end of the current request: a \<open>complete\<close>
  message or an \<open>error\<close> message. The worker's \<open>error\<close> event is not among them: it says
  nothing about a request, and the worker keeps running.
\<close>

fun reports_end :: "event \<Rightarrow> bool" where
  "reports_end (Message Complete) = True"
| "reports_end (Message (Error d)) = True"
| "reports_end _ = False"

text \<open>
  The number of \<open>generate\<close> requests in flight: a request is in flight from the moment it
  is posted until the worker's next \<open>complete\<close> or \<open>error\<close> message. \<open>in_flight evs\<close> is
  that number after the events \<open>evs\<close>, from the initial state.
\<close>

fun in_flight_from :: "nat \<Rightarrow> event list \<Rightarrow> core \<Rightarrow> nat" where
  "in_flight_from n [] s = n"
| "in_flight_from n (ev # evs) s =
     in_flight_from
       ((if reports_end ev then n - 1 else n) + length (filter is_generate (sent_by ev s)))
       evs (step ev s)"

definition in_flight :: "event list \<Rightarrow> nat" where
  "in_flight evs = in_flight_from 0 evs initial_core"

text \<open>Events raised by the worker.\<close>

fun worker_event :: "event \<Rightarrow> bool" where
  "worker_event (Message e) = True"
| "worker_event WorkerError = True"
| "worker_event _ = False"

text \<open>
  The number of \<open>complete\<close> messages in a sequence of events before its first \<open>error\<close>
  message.
\<close>

fun completions :: "event list \<Rightarrow> nat" where
  "completions [] = 0"
| "completions (Message Complete # evs) = Suc (completions evs)"
| "completions (Message (Error d) # evs) = 0"
| "completions (ev # evs) = completions evs"

text \<open>
  Events that happen without the user: worker events, timers, effects, the camera and the
  video.
\<close>

fun automatic :: "event \<Rightarrow> bool" where
  "automatic (Message e) = True"
| "automatic WorkerError = True"
| "automatic IntervalTick = True"
| "automatic LoopEffect = True"
| "automatic CameraFailure = True"
| "automatic (VideoChange v) = True"
| "automatic _ = False"

text \<open>
  Fixtures for the examples: a video element showing a decoded frame, and the session in
  which the model has been loaded and the video plays.
\<close>

definition example_video :: video where
  "example_video = \<lparr>mounted = True, readyState = 4, snapshot = str ''data:image/jpeg''\<rparr>"

definition session_ready :: "event list" where
  "session_ready = [ClickLoadModel, Message (Loading (str ''Loading model...'')),
     Message Ready, VideoChange example_video]"

text \<open>The request identifiers of the \<open>generate\<close> messages of a sequence, in order.\<close>

fun generate_ids :: "outbound list \<Rightarrow> int list" where
  "generate_ids [] = []"
| "generate_ids (Generate m i # ms) = i # generate_ids ms"
| "generate_ids (m # ms) = generate_ids ms"

text \<open>
  The ready session after the user has typed a second prompt, and the worker's events
  for one capture with two requests.
\<close>

definition two_prompts_ready :: core where
  "two_prompts_ready =
     run (session_ready @ [EditPrompt 1 (str ''Count the people'')]) initial_core"

definition worker_replies :: "event list" where
  "worker_replies =
     [Message (Start 0), Message (Update 0 (str ''Sitting.'') (Some 12)), Message Complete,
      Message (Start 1), Message (Update 1 (str ''One.'') (Some 12)), Message Complete]"

text \<open>The worker's \<open>loading\<close> messages.\<close>

fun loading_message :: "event \<Rightarrow> bool" where
  "loading_message (Message (Loading d)) = True"
| "loading_message _ = False"

text \<open>
  A closure with four prompts: two that qualify, a disabled one and one of white space
  only.
\<close>

definition example_closure :: closure where
  "example_closure =
     \<lparr>c_videoFramerate = 0, c_isAnalysisRunning = False,
      c_prompts =
        [\<lparr>prompt_id = 0, prompt_text = str ''Describe the scene'', enabled = True\<rparr>,
         \<lparr>prompt_id = 1, prompt_text = str ''ignored'', enabled = False\<rparr>,
         \<lparr>prompt_id = 2, prompt_text = str ''Count the people'', enabled = True\<rparr>,
         \<lparr>prompt_id = 3, prompt_text = str ''   '', enabled = True\<rparr>]\<rparr>"

text \<open>
  The periodic loop at one frame per second, after its first tick has captured a frame for
  two prompts: one request is with the worker and one is queued.
\<close>

definition periodic_capture :: core where
  "periodic_capture =
     run [SelectFramerate 1, ClickMainButton, IntervalTick] two_prompts_ready"

text \<open>
  The continuous loop, after the effect has captured a frame for the one default prompt
  that qualifies: the request is with the worker and the queue is empty.
\<close>

definition continuous_capture :: core where
  "continuous_capture =
     run (session_ready @ [SelectFramerate (-1), ClickMainButton, LoopEffect]) initial_core"

text \<open>
  Every prompt, every queued request and every request posted so far has an output buffer.
\<close>

definition ids_have_buffers :: "core \<Rightarrow> bool" where
  "ids_have_buffers s \<longleftrightarrow>
     list_all (\<lambda>p. outputs s (prompt_id p) \<noteq> None) (prompts s)
     \<and> list_all (\<lambda>r. outputs s (request_id r) \<noteq> None) (pendingRequests s)
     \<and> list_all (\<lambda>i. outputs s i \<noteq> None) (generate_ids (posted s))"

section \<open>Basic facts about the operations\<close>

lemmas handler_defs =
  onMessageReceived_def onErrorReceived_def toggleAnalysis_def updatePrompt_def
  clearOutput_def loadModel_def handleFileUpload_def postMessage_def
  main_button_disabled_def to_string_def

lemmas fixture_defs =
  initial_core_def initial_prompts_def mount_closure_def current_closure_def
  example_video_def session_ready_def str_def separator_def
  captureFrame_def build_requests_def make_request_def eligible_def trim_def isWhiteSpace_def
  to_generate_def sent_by_def sent_during_def in_flight_def

text \<open>Both mutually recursive operations, with the inner call unfolded.\<close>

lemma triggerInference_unfold:
  "triggerInference cl s =
     (if isWorkerBusy s then s
      else case captureFrame s of
        None \<Rightarrow> s
      | Some img \<Rightarrow>
          if img = [] \<or> build_requests img (c_prompts cl) = [] then s
          else s\<lparr>isWorkerBusy := True,
                 pendingRequests := tl (build_requests img (c_prompts cl)),
                 posted := posted s @ [to_generate (hd (build_requests img (c_prompts cl)))]\<rparr>)"
  by (simp add: triggerInference.simps processRequestQueue.simps postMessage_def to_generate_def
      split: option.splits)

lemma processRequestQueue_nonempty:
  "pendingRequests s \<noteq> [] \<Longrightarrow>
   processRequestQueue cl s =
     s\<lparr>isWorkerBusy := True, pendingRequests := tl (pendingRequests s),
       posted := posted s @ [to_generate (hd (pendingRequests s))]\<rparr>"
  by (simp add: processRequestQueue.simps postMessage_def to_generate_def)

lemma processRequestQueue_empty:
  "pendingRequests s = [] \<Longrightarrow>
   processRequestQueue cl s =
     (if c_videoFramerate cl = -1 \<and> c_isAnalysisRunning cl
      then triggerInference cl (s\<lparr>isWorkerBusy := False\<rparr>)
      else s\<lparr>isWorkerBusy := False\<rparr>)"
  by (simp add: processRequestQueue.simps)

text \<open>
  In the closure of the first render the rate is \<open>0\<close> and the loop is off, so the
  \<open>processRequestQueue\<close> of the message listener never reaches \<open>triggerInference\<close>.
\<close>

lemma processRequestQueue_mount:
  "processRequestQueue mount_closure s =
     (if pendingRequests s = [] then s\<lparr>isWorkerBusy := False\<rparr>
      else s\<lparr>isWorkerBusy := True, pendingRequests := tl (pendingRequests s),
             posted := posted s @ [to_generate (hd (pendingRequests s))]\<rparr>)"
  by (simp add: processRequestQueue_nonempty processRequestQueue_empty mount_closure_def)

lemma sent_by_cases:
  "sent_by ev s = [] \<or> sent_by ev s = [Load] \<or> sent_by ev s = [Interrupt]
   \<or> (\<exists>r. sent_by ev s = [to_generate r] \<and> isWorkerBusy (step ev s)
          \<and> (reports_end ev \<or> \<not> isWorkerBusy s))"
  unfolding sent_by_def
  by (cases ev)
     (auto simp: step_def handler_defs processRequestQueue_mount triggerInference_unfold
        split: option.splits inbound.splits)

lemma posted_step: "posted (step ev s) = posted s @ sent_by ev s"
  unfolding sent_by_def
  by (cases ev)
     (auto simp: step_def handler_defs processRequestQueue_mount triggerInference_unfold
        split: option.splits inbound.splits)

lemma step_keeps_busy:
  "\<not> reports_end ev \<Longrightarrow> ev \<noteq> WorkerError \<Longrightarrow> isWorkerBusy s \<Longrightarrow>
   isWorkerBusy (step ev s)"
  by (cases ev)
     (auto simp: step_def handler_defs triggerInference_unfold
        split: option.splits inbound.splits)

lemma generates_sent_le_1: "length (filter is_generate (sent_by ev s)) \<le> 1"
  using sent_by_cases [of ev s] by (auto simp: to_generate_def)

lemma run_append: "run (evs @ evs') s = run evs' (run evs s)"
  by (induction evs arbitrary: s) simp_all

lemma in_flight_from_append:
  "in_flight_from n (evs @ evs') s = in_flight_from (in_flight_from n evs s) evs' (run evs s)"
  by (induction evs arbitrary: n s) simp_all

lemma in_flight_from_le_1:
  "WorkerError \<notin> set evs \<Longrightarrow> n \<le> 1 \<Longrightarrow> (n = 1 \<longrightarrow> isWorkerBusy s) \<Longrightarrow>
   in_flight_from n evs s \<le> 1"
proof (induction evs arbitrary: n s)
  case Nil
  then show ?case by simp
next
  case (Cons ev evs)
  let ?g = "length (filter is_generate (sent_by ev s))"
  let ?n = "(if reports_end ev then n - 1 else n) + ?g"
  have ev: "ev \<noteq> WorkerError" and evs: "WorkerError \<notin> set evs"
    using Cons.prems(1) by auto
  have g: "?g \<le> 1" by (rule generates_sent_le_1)
  have busy: "?g = 1 \<longrightarrow> isWorkerBusy (step ev s) \<and> (reports_end ev \<or> \<not> isWorkerBusy s)"
    using sent_by_cases [of ev s] by (auto simp: to_generate_def)
  have a: "?n \<le> 1"
    using Cons.prems(2,3) g busy by (cases "reports_end ev") auto
  have b: "?n = 1 \<longrightarrow> isWorkerBusy (step ev s)"
    using Cons.prems(2,3) g busy step_keeps_busy [of ev s] ev
    by (cases "reports_end ev") auto
  show ?case
    using Cons.IH [OF evs a b] by simp
qed

lemma in_flight_le_1: "WorkerError \<notin> set evs \<Longrightarrow> in_flight evs \<le> 1"
  unfolding in_flight_def by (rule in_flight_from_le_1) (simp_all add: initial_core_def)

lemma generate_needs_clear_flag:
  "filter is_generate (sent_by ev s) \<noteq> [] \<Longrightarrow> ev = Message Complete \<or> \<not> isWorkerBusy s"
  unfolding sent_by_def
  by (cases ev)
     (auto simp: step_def handler_defs processRequestQueue_mount triggerInference_unfold
        split: option.splits inbound.splits if_splits)

section \<open>Single flight\<close>

text \<open>
  Claim C1, as the code has it. After every sequence of events from the initial state in
  which the worker's \<open>error\<close> event does not occur, at most one \<open>generate\<close> request is in
  flight, and while one is in flight no event other than a \<open>complete\<close> or \<open>error\<close> message
  of the worker posts a \<open>generate\<close> message. \<open>triggerInference\<close> returns the state
  unchanged, posting nothing, when the busy flag is set, so each capture trigger (the
  manual button, the interval timer, the continuous-mode effect) that arrives while the
  flag is set is dropped and not queued. In every state a \<open>generate\<close> message is posted
  only by the handler of a \<open>complete\<close> message or while the busy flag is clear.
\<close>

theorem single_flight:
  "(WorkerError \<notin> set evs \<longrightarrow> in_flight evs \<le> 1)
   \<and> (isWorkerBusy s \<longrightarrow>
        triggerInference cl s = s
        \<and> step IntervalTick s = s \<and> step LoopEffect s = s
        \<and> (videoFramerate s = 0 \<longrightarrow> step ClickMainButton s = s))
   \<and> (WorkerError \<notin> set evs \<and> in_flight evs = 1 \<and> \<not> reports_end ev \<longrightarrow>
        filter is_generate (sent_by ev (run evs initial_core)) = [])
   \<and> (filter is_generate (sent_by ev s) \<noteq> [] \<longrightarrow>
        ev = Message Complete \<or> \<not> isWorkerBusy s)"
proof -
  have c: "filter is_generate (sent_by ev (run evs initial_core)) = []"
    if h: "WorkerError \<notin> set evs" "in_flight evs = 1" "\<not> reports_end ev"
  proof (cases "ev = WorkerError")
    case True
    then show ?thesis by (simp add: sent_by_def step_def onErrorReceived_def)
  next
    case False
    have "in_flight (evs @ [ev]) =
        (if reports_end ev then in_flight evs - 1 else in_flight evs)
        + length (filter is_generate (sent_by ev (run evs initial_core)))"
      by (simp add: in_flight_def in_flight_from_append)
    moreover have "in_flight (evs @ [ev]) \<le> 1"
      using False h(1) by (intro in_flight_le_1) auto
    ultimately show ?thesis using h(2,3) by simp
  qed
  have b: "isWorkerBusy s \<longrightarrow>
        triggerInference cl s = s
        \<and> step IntervalTick s = s \<and> step LoopEffect s = s
        \<and> (videoFramerate s = 0 \<longrightarrow> step ClickMainButton s = s)"
    by (simp add: step_def triggerInference_unfold)
  show ?thesis
    using in_flight_le_1 [of evs] b c generate_needs_clear_flag [of ev s] by blast
qed

theorem single_flight_witness:
  "WorkerError \<notin> set (session_ready @ [ClickMainButton])
   \<and> in_flight (session_ready @ [ClickMainButton]) = 1
   \<and> isWorkerBusy (run (session_ready @ [ClickMainButton]) initial_core)
   \<and> videoFramerate (run (session_ready @ [ClickMainButton]) initial_core) = 0
   \<and> step ClickMainButton (run (session_ready @ [ClickMainButton]) initial_core)
       = run (session_ready @ [ClickMainButton]) initial_core
   \<and> \<not> reports_end ClickMainButton
   \<and> filter is_generate
        (sent_by ClickMainButton (run (session_ready @ [ClickMainButton]) initial_core)) = []
   \<and> filter is_generate (sent_by ClickMainButton (run session_ready initial_core)) \<noteq> []
   \<and> \<not> isWorkerBusy (run session_ready initial_core)"
proof -
  let ?s = "run (session_ready @ [ClickMainButton]) initial_core"
  note eval = fixture_defs step_def handler_defs
    triggerInference.simps processRequestQueue.simps
  have w: "WorkerError \<notin> set (session_ready @ [ClickMainButton])"
    by (simp add: session_ready_def)
  have n: "in_flight (session_ready @ [ClickMainButton]) = 1"
    by (simp add: eval)
  have busy: "isWorkerBusy ?s" and rate: "videoFramerate ?s = 0"
    by (simp_all add: eval)
  have g: "filter is_generate (sent_by ClickMainButton (run session_ready initial_core)) \<noteq> []"
    by (simp add: eval)
  have a: "step ClickMainButton ?s = ?s"
    "filter is_generate (sent_by ClickMainButton ?s) = []"
    using single_flight [of "session_ready @ [ClickMainButton]" ?s "current_closure ?s"
        ClickMainButton] w n busy rate
    by simp_all
  have f: "\<not> isWorkerBusy (run session_ready initial_core)"
    using single_flight [of "[]" "run session_ready initial_core" mount_closure
        ClickMainButton] g
    by simp
  show ?thesis using w n busy rate a g f by simp
qed

text \<open>
  The worker's \<open>error\<close> event clears the busy flag while a request is with the worker.
  The next capture trigger, a click on the manual button or a tick of the periodic loop,
  then posts a second \<open>generate\<close> message, although no \<open>complete\<close> or \<open>error\<close> message
  has been received for the first.
\<close>

theorem worker_error_allows_second_generate:
  "in_flight (session_ready @ [ClickMainButton, WorkerError, ClickMainButton]) = 2
   \<and> generate_ids (posted (run (session_ready @ [ClickMainButton, WorkerError,
       ClickMainButton]) initial_core)) = [0, 0]
   \<and> in_flight (session_ready @ [EditPrompt 1 (str ''Count the people''), SelectFramerate 1,
       ClickMainButton, IntervalTick, WorkerError, IntervalTick]) = 2
   \<and> generate_ids (posted (run (session_ready @ [EditPrompt 1 (str ''Count the people''),
       SelectFramerate 1, ClickMainButton, IntervalTick, WorkerError, IntervalTick])
       initial_core)) = [0, 0]"
  by (simp add: fixture_defs step_def handler_defs
      triggerInference.simps processRequestQueue.simps)

section \<open>Sequential dispatch in insertion order\<close>

lemma worker_event_step:
  assumes "worker_event ev"
  shows "posted (step ev s)
           @ take (completions evs) (map to_generate (pendingRequests (step ev s)))
         = posted s @ take (completions (ev # evs)) (map to_generate (pendingRequests s))"
proof (cases ev)
  case (Message e)
  then show ?thesis
    by (cases e; cases "pendingRequests s")
       (simp_all add: step_def onMessageReceived_def processRequestQueue_mount)
next
  case WorkerError
  then show ?thesis by (simp add: step_def onErrorReceived_def)
qed (use assms in simp_all)

lemma worker_events_posted:
  "\<forall>ev\<in>set evs. worker_event ev \<Longrightarrow>
   posted (run evs s) = posted s @ take (completions evs) (map to_generate (pendingRequests s))"
proof (induction evs arbitrary: s)
  case Nil
  then show ?case by simp
next
  case (Cons ev evs)
  have "posted (run (ev # evs) s) = posted (run evs (step ev s))" by simp
  also have "\<dots> = posted (step ev s)
      @ take (completions evs) (map to_generate (pendingRequests (step ev s)))"
    using Cons.IH Cons.prems by simp
  also have "\<dots> = posted s @ take (completions (ev # evs)) (map to_generate (pendingRequests s))"
    using worker_event_step Cons.prems by simp
  finally show ?case .
qed

lemma capture_dispatched_in_order:
  assumes "\<not> isWorkerBusy s" "captureFrame s = Some img" "img \<noteq> []"
    and "build_requests img (c_prompts cl) \<noteq> []"
    and "\<forall>ev\<in>set evs. worker_event ev"
  shows "posted (run evs (triggerInference cl s)) =
         posted s @ take (Suc (completions evs))
                      (map to_generate (build_requests img (c_prompts cl)))"
proof -
  obtain r q where rq: "build_requests img (c_prompts cl) = r # q"
    using assms(4) by (cases "build_requests img (c_prompts cl)") auto
  have t: "posted (triggerInference cl s) = posted s @ [to_generate r]"
    "pendingRequests (triggerInference cl s) = q"
    using assms(1-3) rq by (simp_all add: triggerInference_unfold)
  show ?thesis
    using worker_events_posted [OF assms(5), of "triggerInference cl s"] t rq by simp
qed

lemma dispatch_sites:
  "(ev = Message Complete \<longrightarrow>
      (case pendingRequests s of
         [] \<Rightarrow> sent_by ev s = [] \<and> pendingRequests (step ev s) = []
       | r # q \<Rightarrow> sent_by ev s = [to_generate r] \<and> pendingRequests (step ev s) = q))
   \<and> (ev \<noteq> Message Complete \<longrightarrow>
      (\<forall>g\<in>set (sent_by ev s). is_generate g \<longrightarrow>
         (\<exists>img. captureFrame s = Some img
            \<and> g = to_generate (hd (build_requests img (prompts s)))
            \<and> pendingRequests (step ev s) = tl (build_requests img (prompts s)))))"
  unfolding sent_by_def
  by (cases ev)
     (auto simp: step_def handler_defs processRequestQueue_mount
        triggerInference_unfold current_closure_def
        split: option.splits inbound.splits list.splits)

text \<open>
  Claim C2. For every sequence of worker events, from any state, the \<open>generate\<close> messages
  posted are the requests at the front of the pending queue, in queue order, one for each
  \<open>complete\<close> message received (up to the first \<open>error\<close> message); the \<open>complete\<close> message
  for a request is the one received while that request is with the worker. A capture posts its first
  request itself and every later one in the handler of a \<open>complete\<close> message, so the
  requests of a capture reach the worker in the order in which they were built. The
  handler of \<open>complete\<close> posts exactly the head of the queue and removes it; a \<open>generate\<close>
  message posted while any other event is handled is the first request of a new capture.
\<close>

theorem queue_drained_in_order:
  "((\<forall>ev\<in>set evs. worker_event ev) \<longrightarrow>
      sent_during evs s = take (completions evs) (map to_generate (pendingRequests s)))
   \<and> ((\<forall>ev\<in>set evs. worker_event ev) \<and> \<not> isWorkerBusy s \<and> captureFrame s = Some img
        \<and> img \<noteq> [] \<and> build_requests img (c_prompts cl) \<noteq> [] \<longrightarrow>
      posted (run evs (triggerInference cl s)) =
        posted s @ take (Suc (completions evs))
                     (map to_generate (build_requests img (c_prompts cl))))
   \<and> (ev = Message Complete \<longrightarrow>
        (case pendingRequests s of
           [] \<Rightarrow> sent_by ev s = [] \<and> pendingRequests (step ev s) = []
         | r # q \<Rightarrow> sent_by ev s = [to_generate r] \<and> pendingRequests (step ev s) = q))
   \<and> (ev \<noteq> Message Complete \<longrightarrow>
        (\<forall>g\<in>set (sent_by ev s). is_generate g \<longrightarrow>
           (\<exists>img. captureFrame s = Some img
              \<and> g = to_generate (hd (build_requests img (prompts s)))
              \<and> pendingRequests (step ev s) = tl (build_requests img (prompts s)))))"
proof -
  have a: "(\<forall>ev\<in>set evs. worker_event ev) \<longrightarrow>
      sent_during evs s = take (completions evs) (map to_generate (pendingRequests s))"
    by (simp add: sent_during_def worker_events_posted)
  have b: "(\<forall>ev\<in>set evs. worker_event ev) \<and> \<not> isWorkerBusy s \<and> captureFrame s = Some img
        \<and> img \<noteq> [] \<and> build_requests img (c_prompts cl) \<noteq> [] \<longrightarrow>
      posted (run evs (triggerInference cl s)) =
        posted s @ take (Suc (completions evs))
                     (map to_generate (build_requests img (c_prompts cl)))"
    using capture_dispatched_in_order [of s img cl evs] by blast
  show ?thesis using a b dispatch_sites [of ev s] by blast
qed

theorem queue_drained_in_order_witness:
  "list_all worker_event worker_replies
   \<and> \<not> isWorkerBusy two_prompts_ready
   \<and> captureFrame two_prompts_ready = Some (snapshot example_video)
   \<and> snapshot example_video \<noteq> []
   \<and> build_requests (snapshot example_video) (prompts two_prompts_ready) \<noteq> []
   \<and> generate_ids (posted (run worker_replies
         (triggerInference (current_closure two_prompts_ready) two_prompts_ready))) = [0, 1]
   \<and> generate_ids (sent_during worker_replies
         (triggerInference (current_closure two_prompts_ready) two_prompts_ready)) = [1]
   \<and> generate_ids (sent_by (Message Complete)
         (triggerInference (current_closure two_prompts_ready) two_prompts_ready)) = [1]
   \<and> ClickMainButton \<noteq> Message Complete
   \<and> generate_ids (sent_by ClickMainButton two_prompts_ready) = [0]"
proof -
  let ?s = two_prompts_ready
  let ?cl = "current_closure two_prompts_ready"
  let ?img = "snapshot example_video"
  let ?t = "triggerInference ?cl ?s"
  note eval = two_prompts_ready_def worker_replies_def fixture_defs step_def handler_defs
    triggerInference.simps processRequestQueue.simps
  have w: "\<forall>ev\<in>set worker_replies. worker_event ev"
    by (simp add: worker_replies_def)
  have h: "\<not> isWorkerBusy ?s" "captureFrame ?s = Some ?img" "?img \<noteq> []"
    "build_requests ?img (c_prompts ?cl) \<noteq> []"
    by (simp_all add: eval)
  have n: "completions worker_replies = 2"
    by (simp add: worker_replies_def)
  have reqs: "map to_generate (build_requests ?img (c_prompts ?cl)) =
      [Generate [\<lparr>role = str ''user'', content = [ImagePart ?img,
           TextPart (str ''What is the person doing?'')]\<rparr>] 0,
       Generate [\<lparr>role = str ''user'', content = [ImagePart ?img,
           TextPart (str ''Count the people'')]\<rparr>] 1]"
    by (simp add: eval)
  have queue: "map to_generate (pendingRequests ?t) =
      [Generate [\<lparr>role = str ''user'', content = [ImagePart ?img,
           TextPart (str ''Count the people'')]\<rparr>] 1]"
    by (simp add: eval)
  have p: "posted ?s = [Check, Load]"
    by (simp add: eval)
  have b: "posted (run worker_replies ?t) =
      posted ?s @ take (Suc (completions worker_replies))
                    (map to_generate (build_requests ?img (c_prompts ?cl)))"
    using queue_drained_in_order [of worker_replies ?s ?img ?cl ClickMainButton] w h by blast
  have a: "sent_during worker_replies ?t =
      take (completions worker_replies) (map to_generate (pendingRequests ?t))"
    using queue_drained_in_order [of worker_replies ?t ?img ?cl "Message Complete"] w by blast
  have c: "generate_ids (sent_by (Message Complete) ?t) = [1]"
    by (simp add: eval)
  have d: "generate_ids (sent_by ClickMainButton ?s) = [0]"
    by (simp add: eval)
  have b': "generate_ids (posted (run worker_replies ?t)) = [0, 1]"
    unfolding b reqs n p by simp
  have a': "generate_ids (sent_during worker_replies ?t) = [1]"
    unfolding a queue n by simp
  have h': "build_requests ?img (prompts ?s) \<noteq> []"
    using h(4) by (simp add: current_closure_def)
  have w': "list_all worker_event worker_replies"
    using w by (simp add: list_all_iff)
  show ?thesis using w' h(1-3) h' b' a' c d by simp
qed

section \<open>Building the requests of a capture\<close>

text \<open>
  Claim C3. When the worker is not busy and the frame capture succeeds, \<open>triggerInference\<close>
  builds one request for each prompt of its prompt list that is enabled and whose trimmed
  text is not empty, in the order of the list, and for no other prompt: it posts the
  first of these requests and leaves the others, in order, in the pending queue. With no
  such prompt it changes nothing.
\<close>

theorem triggerInference_requests:
  assumes "\<not> isWorkerBusy s" and "captureFrame s = Some img" and "img \<noteq> []"
  shows "let reqs =
           map (\<lambda>p. \<lparr>request_id = prompt_id p,
                      message = [\<lparr>role = str ''user'',
                                  content = [ImagePart img, TextPart (prompt_text p)]\<rparr>]\<rparr>)
               (filter (\<lambda>p. enabled p \<and> trim (prompt_text p) \<noteq> []) (c_prompts cl))
         in if reqs = [] then triggerInference cl s = s
            else posted (triggerInference cl s)
                   = posted s @ [Generate (message (hd reqs)) (request_id (hd reqs))]
               \<and> pendingRequests (triggerInference cl s) = tl reqs
               \<and> isWorkerBusy (triggerInference cl s)"
proof -
  have "build_requests img (c_prompts cl) =
      map (\<lambda>p. \<lparr>request_id = prompt_id p,
                 message = [\<lparr>role = str ''user'',
                             content = [ImagePart img, TextPart (prompt_text p)]\<rparr>]\<rparr>)
          (filter (\<lambda>p. enabled p \<and> trim (prompt_text p) \<noteq> []) (c_prompts cl))"
    by (simp add: build_requests_def eligible_def [abs_def] make_request_def [abs_def])
  then show ?thesis
    using assms by (simp add: triggerInference_unfold to_generate_def Let_def)
qed

theorem triggerInference_requests_witness:
  "\<not> isWorkerBusy (run session_ready initial_core)
   \<and> captureFrame (run session_ready initial_core) = Some (snapshot example_video)
   \<and> snapshot example_video \<noteq> []
   \<and> posted (triggerInference example_closure (run session_ready initial_core))
       = [Check, Load,
          Generate [\<lparr>role = str ''user'',
                     content = [ImagePart (snapshot example_video),
                                TextPart (str ''Describe the scene'')]\<rparr>] 0]
   \<and> pendingRequests (triggerInference example_closure (run session_ready initial_core))
       = [\<lparr>request_id = 2,
           message = [\<lparr>role = str ''user'',
                       content = [ImagePart (snapshot example_video),
                                  TextPart (str ''Count the people'')]\<rparr>]\<rparr>]"
proof -
  let ?s = "run session_ready initial_core"
  note eval = fixture_defs step_def handler_defs example_closure_def
  have h: "\<not> isWorkerBusy ?s" "captureFrame ?s = Some (snapshot example_video)"
    "snapshot example_video \<noteq> []"
    by (simp_all add: eval)
  have p: "posted ?s = [Check, Load]"
    by (simp add: eval)
  show ?thesis
    using triggerInference_requests [OF h, of example_closure] h p
    by (simp add: example_closure_def trim_def isWhiteSpace_def str_def Let_def)
qed

section \<open>Worker errors\<close>

lemma idle_step:
  assumes "automatic ev" "\<not> isAnalysisRunning s" "pendingRequests s = []"
  shows "\<not> isAnalysisRunning (step ev s) \<and> pendingRequests (step ev s) = []
         \<and> posted (step ev s) = posted s"
  using assms
  by (cases ev)
     (auto simp: step_def onMessageReceived_def processRequestQueue_mount onErrorReceived_def
        split: inbound.splits)

lemma idle_run:
  "\<forall>ev\<in>set evs. automatic ev \<Longrightarrow> \<not> isAnalysisRunning s \<Longrightarrow> pendingRequests s = [] \<Longrightarrow>
   posted (run evs s) = posted s"
proof (induction evs arbitrary: s)
  case Nil
  then show ?case by simp
next
  case (Cons ev evs)
  then show ?case using idle_step [of ev s] by simp
qed

text \<open>
  Claim C5. The handler of a worker \<open>error\<close> message, in one step, records the message in
  \<open>error\<close>, clears the busy flag, stops the analysis loop and empties the pending queue,
  and posts nothing. Nothing is retried: after the error no sequence of events that happen
  without the user (worker events, timer ticks, effects, camera and video changes) posts
  any message.
\<close>

theorem worker_error_clears_everything:
  "error (step (Message (Error d)) s) = Some d
   \<and> \<not> isWorkerBusy (step (Message (Error d)) s)
   \<and> \<not> isAnalysisRunning (step (Message (Error d)) s)
   \<and> pendingRequests (step (Message (Error d)) s) = []
   \<and> posted (step (Message (Error d)) s) = posted s
   \<and> ((\<forall>ev\<in>set evs. automatic ev) \<longrightarrow>
        posted (run evs (step (Message (Error d)) s)) = posted s)"
proof -
  let ?s = "step (Message (Error d)) s"
  have a: "error ?s = Some d" "\<not> isWorkerBusy ?s" "\<not> isAnalysisRunning ?s"
    "pendingRequests ?s = []" "posted ?s = posted s"
    by (simp_all add: step_def onMessageReceived_def)
  show ?thesis using a idle_run [of evs ?s] by simp
qed

theorem worker_error_clears_everything_witness:
  "isAnalysisRunning periodic_capture \<and> isWorkerBusy periodic_capture
   \<and> length (pendingRequests periodic_capture) = 1
   \<and> list_all automatic [Message Complete, IntervalTick, LoopEffect, Message (Start 1)]
   \<and> pendingRequests (step (Message (Error (str ''out of memory''))) periodic_capture) = []
   \<and> posted (run [Message Complete, IntervalTick, LoopEffect, Message (Start 1)]
        (step (Message (Error (str ''out of memory''))) periodic_capture))
       = posted periodic_capture"
proof -
  have a: "isAnalysisRunning periodic_capture \<and> isWorkerBusy periodic_capture
      \<and> length (pendingRequests periodic_capture) = 1"
    by (simp add: periodic_capture_def two_prompts_ready_def fixture_defs step_def handler_defs
        triggerInference.simps processRequestQueue.simps)
  show ?thesis
    using worker_error_clears_everything
      [of "str ''out of memory''" periodic_capture
          "[Message Complete, IntervalTick, LoopEffect, Message (Start 1)]"] a
    by simp
qed

section \<open>Output buffers\<close>

text \<open>
  Claim C6. The handler of an \<open>update\<close> message with identifier \<open>i\<close> and text \<open>output\<close>
  turns the buffer of \<open>i\<close> into its previous value followed by \<open>output\<close> and leaves the
  buffer of every other identifier as it was.
\<close>

theorem update_appends_to_own_buffer:
  assumes "outputs s i = Some b"
  shows "outputs (step (Message (Update i output newTps)) s) i = Some (b @ output)
         \<and> (\<forall>j. j \<noteq> i \<longrightarrow>
               outputs (step (Message (Update i output newTps)) s) j = outputs s j)"
  using assms by (simp add: step_def onMessageReceived_def to_string_def)

theorem update_appends_to_own_buffer_witness:
  "outputs (run [Message (Start 0), Message (Update 0 (str ''Sit'') None)] initial_core) 0
     = Some (str ''Sit'')
   \<and> outputs (step (Message (Update 0 (str ''ting'') (Some 12)))
        (run [Message (Start 0), Message (Update 0 (str ''Sit'') None)] initial_core)) 0
     = Some (str ''Sitting'')
   \<and> outputs (step (Message (Update 0 (str ''ting'') (Some 12)))
        (run [Message (Start 0), Message (Update 0 (str ''Sit'') None)] initial_core)) 1
     = Some []"
proof -
  let ?s = "run [Message (Start 0), Message (Update 0 (str ''Sit'') None)] initial_core"
  have h: "outputs ?s 0 = Some (str ''Sit'')"
    by (simp add: fixture_defs step_def handler_defs)
  have o: "outputs ?s 1 = Some []"
    by (simp add: fixture_defs step_def handler_defs)
  show ?thesis
    using update_appends_to_own_buffer [OF h, of "str ''ting''" "Some 12"] h o
    by (simp add: str_def)
qed

lemma outputs_triggerInference: "outputs (triggerInference cl s) = outputs s"
  by (simp add: triggerInference_unfold split: option.splits)

lemma buffers_append_only:
  assumes "\<forall>k. ev \<noteq> ClickClear k" and "outputs s j = Some b"
  shows "\<exists>b'. outputs (step ev s) j = Some (b @ b')"
  using assms
  by (cases ev)
     (auto simp: step_def handler_defs processRequestQueue_mount outputs_triggerInference
        split: inbound.splits)

text \<open>
  Claim C7, as the code has it. The handler of a \<open>start\<close> message with identifier \<open>i\<close>
  appends the separator to the buffer of \<open>i\<close> when that buffer holds text, and sets the
  buffer to the empty string, without a separator, when it is empty or missing; the
  buffers of the other identifiers stay as they were. Every event other than a click on
  Clear only extends a buffer at its end. \<open>clearOutput\<close> resets the buffer of its
  identifier to the empty string and touches no other buffer.
\<close>

theorem start_separates_passes:
  "(outputs s i = Some b \<and> b \<noteq> [] \<longrightarrow>
      outputs (step (Message (Start i)) s) i = Some (b @ separator))
   \<and> (outputs s i = None \<or> outputs s i = Some [] \<longrightarrow>
      outputs (step (Message (Start i)) s) i = Some [])
   \<and> (\<forall>j. j \<noteq> i \<longrightarrow> outputs (step (Message (Start i)) s) j = outputs s j)
   \<and> ((\<forall>k. ev \<noteq> ClickClear k) \<and> outputs s j = Some b \<longrightarrow>
      (\<exists>b'. outputs (step ev s) j = Some (b @ b')))
   \<and> outputs (clearOutput k s) k = Some []
   \<and> (\<forall>j. j \<noteq> k \<longrightarrow> outputs (clearOutput k s) j = outputs s j)"
proof -
  have a: "outputs s i = Some b \<and> b \<noteq> [] \<longrightarrow>
      outputs (step (Message (Start i)) s) i = Some (b @ separator)"
    by (simp add: step_def onMessageReceived_def)
  have b: "outputs s i = None \<or> outputs s i = Some [] \<longrightarrow>
      outputs (step (Message (Start i)) s) i = Some []"
    by (auto simp: step_def onMessageReceived_def)
  have c: "\<forall>j. j \<noteq> i \<longrightarrow> outputs (step (Message (Start i)) s) j = outputs s j"
    by (simp add: step_def onMessageReceived_def)
  have d: "(\<forall>k. ev \<noteq> ClickClear k) \<and> outputs s j = Some b \<longrightarrow>
      (\<exists>b'. outputs (step ev s) j = Some (b @ b'))"
    using buffers_append_only [of ev s j b] by blast
  have e: "outputs (clearOutput k s) k = Some []"
    "\<forall>j. j \<noteq> k \<longrightarrow> outputs (clearOutput k s) j = outputs s j"
    by (simp_all add: clearOutput_def)
  show ?thesis using a b c d e by blast
qed

theorem start_separates_passes_witness:
  "outputs (run [Message (Start 0), Message (Update 0 (str ''Sitting.'') None)] initial_core) 0
     = Some (str ''Sitting.'')
   \<and> str ''Sitting.'' \<noteq> []
   \<and> outputs (step (Message (Start 0))
        (run [Message (Start 0), Message (Update 0 (str ''Sitting.'') None)] initial_core)) 0
     = Some (str ''Sitting.'' @ separator)
   \<and> (\<forall>k. Message Complete \<noteq> ClickClear k)
   \<and> (\<exists>b'. outputs (step (Message Complete)
        (run [Message (Start 0), Message (Update 0 (str ''Sitting.'') None)] initial_core)) 0
     = Some (str ''Sitting.'' @ b'))
   \<and> (outputs initial_core 7 = None \<or> outputs initial_core 7 = Some [])
   \<and> outputs (step (Message (Start 7)) initial_core) 7 = Some []
   \<and> outputs (step (Message (Start 7)) initial_core) 0 = outputs initial_core 0
   \<and> outputs (clearOutput 0
        (run [Message (Start 0), Message (Update 0 (str ''Sitting.'') None)] initial_core)) 0
     = Some []"
proof -
  let ?s = "run [Message (Start 0), Message (Update 0 (str ''Sitting.'') None)] initial_core"
  have h: "outputs ?s 0 = Some (str ''Sitting.'')" "str ''Sitting.'' \<noteq> []"
    by (simp_all add: fixture_defs step_def handler_defs)
  have n: "outputs initial_core 7 = None"
    by (simp add: initial_core_def)
  have a: "outputs (step (Message (Start 0)) ?s) 0 = Some (str ''Sitting.'' @ separator)"
    "\<exists>b'. outputs (step (Message Complete) ?s) 0 = Some (str ''Sitting.'' @ b')"
    "outputs (clearOutput 0 ?s) 0 = Some []"
    using start_separates_passes [of ?s 0 "str ''Sitting.''" "Message Complete" 0 0] h
    by simp_all
  have b: "outputs (step (Message (Start 7)) initial_core) 7 = Some []"
    "outputs (step (Message (Start 7)) initial_core) 0 = outputs initial_core 0"
    using start_separates_passes [of initial_core 7 "[]" "Message Complete" 0 0] n
    by simp_all
  show ?thesis using h n a b by simp
qed

text \<open>
  The first \<open>start\<close> message of a session finds an empty buffer and leaves it empty: no
  separator opens the first pass.
\<close>

theorem first_start_writes_no_separator:
  "outputs initial_core 0 = Some []
   \<and> outputs (step (Message (Start 0)) initial_core) 0 = Some []
   \<and> outputs (step (Message (Start 0)) initial_core) 0 \<noteq> Some ([] @ separator)"
  by (simp add: fixture_defs step_def handler_defs)

section \<open>Session status\<close>

lemma status_step_not_null: "status s \<noteq> None \<Longrightarrow> status (step ev s) \<noteq> None"
  by (cases ev)
     (auto simp: step_def handler_defs processRequestQueue_mount triggerInference_unfold
        split: inbound.splits option.splits)

lemma status_step_ready:
  "status s = Some StatusReady \<Longrightarrow> \<not> loading_message ev \<Longrightarrow>
   status (step ev s) = Some StatusReady"
  by (cases ev)
     (auto simp: step_def handler_defs processRequestQueue_mount triggerInference_unfold
        split: inbound.splits option.splits)

lemma status_run_not_null: "status s \<noteq> None \<Longrightarrow> status (run evs s) \<noteq> None"
proof (induction evs arbitrary: s)
  case Nil
  then show ?case by simp
next
  case (Cons ev evs)
  have "status (step ev s) \<noteq> None" using Cons.prems by (rule status_step_not_null)
  then show ?case using Cons.IH by simp
qed

lemma status_run_ready:
  "status s = Some StatusReady \<Longrightarrow> \<forall>ev\<in>set evs. \<not> loading_message ev \<Longrightarrow>
   status (run evs s) = Some StatusReady"
  by (induction evs arbitrary: s) (simp_all add: status_step_ready)

text \<open>
  Claim C8, as the code has it. Through every sequence of worker events and user actions
  the status, once \<open>loading\<close> or \<open>ready\<close>, never returns to \<open>null\<close>; and once \<open>ready\<close> it
  stays \<open>ready\<close> through every sequence that holds no \<open>loading\<close> message of the worker.
\<close>

theorem status_never_null_again:
  "(status s \<noteq> None \<longrightarrow> status (run evs s) \<noteq> None)
   \<and> (status s = Some StatusReady \<and> (\<forall>ev\<in>set evs. \<not> loading_message ev) \<longrightarrow>
        status (run evs s) = Some StatusReady)"
  using status_run_not_null [of s evs] status_run_ready [of s evs] by blast

theorem status_never_null_again_witness:
  "status (run session_ready initial_core) = Some StatusReady
   \<and> status (run session_ready initial_core) \<noteq> None
   \<and> list_all (\<lambda>ev. \<not> loading_message ev)
         [ClickLoadModel, Message (Error (str ''failed'')), ClickMainButton, Message Complete]
   \<and> status (run [ClickLoadModel, Message (Error (str ''failed'')), ClickMainButton,
                  Message Complete] (run session_ready initial_core)) = Some StatusReady
   \<and> status (run [Message (Loading []), Message Unhandled]
                 (run session_ready initial_core)) \<noteq> None"
proof -
  have h: "status (run session_ready initial_core) = Some StatusReady"
    by (simp add: fixture_defs step_def handler_defs)
  have a: "status (run [ClickLoadModel, Message (Error (str ''failed'')), ClickMainButton,
                  Message Complete] (run session_ready initial_core)) = Some StatusReady"
    using status_never_null_again [of "run session_ready initial_core"
        "[ClickLoadModel, Message (Error (str ''failed'')), ClickMainButton, Message Complete]"] h
    by simp
  have b: "status (run [Message (Loading []), Message Unhandled]
                 (run session_ready initial_core)) \<noteq> None"
    using status_never_null_again [of "run session_ready initial_core"
        "[Message (Loading []), Message Unhandled]"] h
    by simp
  show ?thesis using h a b by simp
qed

text \<open>A \<open>loading\<close> message received after \<open>ready\<close> takes the status back to \<open>loading\<close>.\<close>

theorem loading_after_ready_regresses:
  "status (run [Message Ready] initial_core) = Some StatusReady
   \<and> status (run [Message Ready, Message (Loading (str ''Loading model...''))] initial_core)
       = Some StatusLoading"
  by (simp add: fixture_defs step_def handler_defs)

section \<open>Stopping the loop\<close>

text \<open>
  Claim C9. When the analysis loop is running, \<open>toggleAnalysis\<close> posts an \<open>interrupt\<close>
  message, empties the pending queue and turns the loop off, all in the one step; it
  leaves the busy flag as it was and posts nothing else. The main button calls it whenever
  a rate other than manual is selected.
\<close>

theorem stop_interrupts_and_clears_queue:
  "(isAnalysisRunning s \<longrightarrow>
      posted (toggleAnalysis s) = posted s @ [Interrupt]
      \<and> pendingRequests (toggleAnalysis s) = []
      \<and> \<not> isAnalysisRunning (toggleAnalysis s)
      \<and> isWorkerBusy (toggleAnalysis s) = isWorkerBusy s)
   \<and> (status s = Some StatusReady \<and> \<not> main_button_disabled s \<and> videoFramerate s \<noteq> 0 \<longrightarrow>
      step ClickMainButton s = toggleAnalysis s)"
  by (simp add: toggleAnalysis_def postMessage_def step_def)

theorem stop_interrupts_and_clears_queue_witness:
  "isAnalysisRunning periodic_capture
   \<and> status periodic_capture = Some StatusReady \<and> \<not> main_button_disabled periodic_capture
   \<and> videoFramerate periodic_capture \<noteq> 0
   \<and> isWorkerBusy periodic_capture \<and> length (pendingRequests periodic_capture) = 1
   \<and> posted (step ClickMainButton periodic_capture) = posted periodic_capture @ [Interrupt]
   \<and> pendingRequests (step ClickMainButton periodic_capture) = []
   \<and> isWorkerBusy (step ClickMainButton periodic_capture)"
proof -
  have h: "isAnalysisRunning periodic_capture" "status periodic_capture = Some StatusReady"
    "\<not> main_button_disabled periodic_capture" "videoFramerate periodic_capture \<noteq> 0"
    "isWorkerBusy periodic_capture" "length (pendingRequests periodic_capture) = 1"
    by (simp_all add: periodic_capture_def two_prompts_ready_def fixture_defs step_def
        handler_defs triggerInference.simps processRequestQueue.simps)
  show ?thesis
    using stop_interrupts_and_clears_queue [of periodic_capture] h by simp
qed

section \<open>Continuous mode\<close>

text \<open>
  On an empty queue the message listener only clears the busy flag, whatever the rate and
  the loop state of the current render: its \<open>processRequestQueue\<close> tests the values of
  the first render.
\<close>

lemma complete_on_empty_queue:
  "pendingRequests s = [] \<Longrightarrow> step (Message Complete) s = s\<lparr>isWorkerBusy := False\<rparr>"
  by (simp add: step_def onMessageReceived_def processRequestQueue_mount)

text \<open>
  Claim C4 at a concrete session. The loop runs in continuous mode, the one request of the
  capture is with the worker and the queue is empty. When the \<open>complete\<close> message arrives
  the handler clears the busy flag and posts nothing: no new capture is triggered, although
  a frame is available. The \<open>processRequestQueue\<close> of the current render would have
  captured and posted the next request.
\<close>

theorem continuous_mode_stalls_after_drain:
  "videoFramerate continuous_capture = -1
   \<and> isAnalysisRunning continuous_capture
   \<and> status continuous_capture = Some StatusReady
   \<and> isWorkerBusy continuous_capture
   \<and> pendingRequests continuous_capture = []
   \<and> generate_ids (posted continuous_capture) = [0]
   \<and> captureFrame continuous_capture = Some (snapshot example_video)
   \<and> step (Message Complete) continuous_capture = continuous_capture\<lparr>isWorkerBusy := False\<rparr>
   \<and> sent_by (Message Complete) continuous_capture = []
   \<and> generate_ids (posted (processRequestQueue (current_closure continuous_capture)
        continuous_capture)) = [0, 0]"
  by (simp add: continuous_capture_def fixture_defs step_def handler_defs
      triggerInference.simps processRequestQueue.simps)

section \<open>Busy flag and queue\<close>

lemma step_keeps_idle_queue_empty:
  assumes "ev \<noteq> WorkerError" and "\<not> isWorkerBusy s \<longrightarrow> pendingRequests s = []"
  shows "\<not> isWorkerBusy (step ev s) \<longrightarrow> pendingRequests (step ev s) = []"
  using assms
  by (cases ev)
     (auto simp: step_def handler_defs processRequestQueue_mount triggerInference_unfold
        split: inbound.splits option.splits)

text \<open>
  As long as the worker's \<open>error\<close> event does not occur, an idle worker never coexists with
  queued requests.
\<close>

lemma idle_queue_empty_without_worker_error:
  "WorkerError \<notin> set evs \<Longrightarrow> \<not> isWorkerBusy s \<longrightarrow> pendingRequests s = [] \<Longrightarrow>
   \<not> isWorkerBusy (run evs s) \<longrightarrow> pendingRequests (run evs s) = []"
proof (induction evs arbitrary: s)
  case Nil
  then show ?case by simp
next
  case (Cons ev evs)
  have "\<not> isWorkerBusy (step ev s) \<longrightarrow> pendingRequests (step ev s) = []"
    using Cons.prems by (intro step_keeps_idle_queue_empty) auto
  then show ?case using Cons.IH [of "step ev s"] Cons.prems(1) by simp
qed

text \<open>
  Claim C10 at a concrete session. A capture for two prompts has posted its first request
  and holds the second in the queue. The worker's \<open>error\<close> event then clears the busy flag
  and leaves the queue as it is: the state reached has an idle worker and one queued
  request. The handler of the \<open>error\<close> message, on the same state, empties the queue.
\<close>

theorem worker_error_event_leaves_queue:
  "reachable (step WorkerError periodic_capture)
   \<and> isWorkerBusy periodic_capture
   \<and> map request_id (pendingRequests periodic_capture) = [1]
   \<and> \<not> isWorkerBusy (step WorkerError periodic_capture)
   \<and> map request_id (pendingRequests (step WorkerError periodic_capture)) = [1]
   \<and> pendingRequests (step (Message (Error (str ''failed''))) periodic_capture) = []"
proof -
  let ?evs = "session_ready @ [EditPrompt 1 (str ''Count the people''), SelectFramerate 1,
     ClickMainButton, IntervalTick, WorkerError]"
  have "step WorkerError periodic_capture = run ?evs initial_core"
    by (simp add: periodic_capture_def two_prompts_ready_def run_append)
  then have r: "reachable (step WorkerError periodic_capture)"
    unfolding reachable_def by blast
  have e: "isWorkerBusy periodic_capture
     \<and> map request_id (pendingRequests periodic_capture) = [1]
     \<and> \<not> isWorkerBusy (step WorkerError periodic_capture)
     \<and> map request_id (pendingRequests (step WorkerError periodic_capture)) = [1]
     \<and> pendingRequests (step (Message (Error (str ''failed''))) periodic_capture) = []"
    by (simp add: periodic_capture_def two_prompts_ready_def fixture_defs step_def
        handler_defs triggerInference.simps processRequestQueue.simps)
  show ?thesis using r e by simp
qed

section \<open>Identifiers of dispatched requests\<close>

text \<open>
  \<open>ids_have_buffers\<close> holds in every reachable state: the prompt list and the buffers
  start with the same identifiers, no prompt is added, and no buffer is removed. So the
  \<open>update\<close> messages that answer a request of the core find a buffer to append to. An
  \<open>update\<close> message for an identifier without a buffer would create one that starts
  with the text \<open>undefined\<close>.
\<close>

lemma update_without_buffer:
  "outputs s i = None \<Longrightarrow>
   outputs (step (Message (Update i out newTps)) s) i = Some (str ''undefined'' @ out)"
  by (simp add: step_def onMessageReceived_def to_string_def)

lemma build_requests_ids:
  "list_all (\<lambda>p. m (prompt_id p) \<noteq> None) ps \<Longrightarrow>
   list_all (\<lambda>r. m (request_id r) \<noteq> None) (build_requests img ps)"
  by (induction ps) (simp_all add: build_requests_def make_request_def)

lemma generate_ids_append: "generate_ids (xs @ ys) = generate_ids xs @ generate_ids ys"
  by (induction xs rule: generate_ids.induct) simp_all

lemma list_all_hd_tl:
  "list_all P xs \<Longrightarrow> xs \<noteq> [] \<Longrightarrow> P (hd xs) \<and> list_all P (tl xs)"
  by (cases xs) simp_all

lemma ids_have_buffers_triggerInference:
  assumes "ids_have_buffers s" and "c_prompts cl = prompts s"
  shows "ids_have_buffers (triggerInference cl s)"
proof (cases "captureFrame s")
  case None
  then have "triggerInference cl s = s" by (simp add: triggerInference_unfold)
  then show ?thesis using assms(1) by simp
next
  case (Some img)
  let ?rs = "build_requests img (prompts s)"
  show ?thesis
  proof (cases "isWorkerBusy s \<or> img = [] \<or> ?rs = []")
    case True
    then have "triggerInference cl s = s"
      using Some assms(2) by (auto simp: triggerInference_unfold)
    then show ?thesis using assms(1) by simp
  next
    case False
    then have t: "triggerInference cl s =
        s\<lparr>isWorkerBusy := True, pendingRequests := tl ?rs,
          posted := posted s @ [to_generate (hd ?rs)]\<rparr>"
      using Some assms(2) by (simp add: triggerInference_unfold)
    have "list_all (\<lambda>r. outputs s (request_id r) \<noteq> None) ?rs"
      using assms(1) build_requests_ids [of "outputs s" "prompts s" img]
      unfolding ids_have_buffers_def by blast
    then have "outputs s (request_id (hd ?rs)) \<noteq> None"
      "list_all (\<lambda>r. outputs s (request_id r) \<noteq> None) (tl ?rs)"
      using False list_all_hd_tl by blast+
    then show ?thesis
      using assms(1) unfolding t
      by (simp add: ids_have_buffers_def generate_ids_append to_generate_def)
  qed
qed

lemma ids_have_buffers_complete:
  assumes "ids_have_buffers s"
  shows "ids_have_buffers (processRequestQueue mount_closure s)"
proof (cases "pendingRequests s")
  case Nil
  then show ?thesis using assms
    by (simp add: processRequestQueue_mount ids_have_buffers_def)
next
  case (Cons r q)
  then show ?thesis using assms
    by (simp add: processRequestQueue_mount ids_have_buffers_def generate_ids_append
        to_generate_def)
qed

lemma ids_have_buffers_outputs:
  assumes "ids_have_buffers s" and "\<And>k. outputs s k \<noteq> None \<Longrightarrow> m k \<noteq> None"
  shows "ids_have_buffers (s\<lparr>outputs := m\<rparr>)"
  using assms unfolding ids_have_buffers_def
  by (auto simp: list_all_iff)

lemma ids_have_buffers_message:
  assumes "ids_have_buffers s"
  shows "ids_have_buffers (onMessageReceived mount_closure e s)"
proof (cases e)
  case Complete
  then show ?thesis using assms by (simp add: onMessageReceived_def ids_have_buffers_complete)
next
  case (Start i)
  have "ids_have_buffers (s\<lparr>outputs := (outputs s)
               (i \<mapsto> (case outputs s i of
                          None \<Rightarrow> []
                        | Some b \<Rightarrow> if b \<noteq> [] then b @ separator else []))\<rparr>)"
    using assms by (rule ids_have_buffers_outputs) simp
  then show ?thesis using Start by (simp add: onMessageReceived_def)
next
  case (Update i out newTps)
  have "ids_have_buffers (s\<lparr>tps := newTps\<rparr>)"
    using assms by (simp add: ids_have_buffers_def)
  then have "ids_have_buffers
      ((s\<lparr>tps := newTps\<rparr>)\<lparr>outputs := (outputs s)(i \<mapsto> to_string (outputs s i) @ out)\<rparr>)"
    by (rule ids_have_buffers_outputs) simp
  then show ?thesis using Update by (simp add: onMessageReceived_def)
qed (use assms in \<open>simp_all add: onMessageReceived_def ids_have_buffers_def\<close>)

lemma ids_have_buffers_step:
  assumes "ids_have_buffers s"
  shows "ids_have_buffers (step ev s)"
proof (cases ev)
  case (Message e)
  then show ?thesis using assms by (simp add: step_def ids_have_buffers_message)
next
  case ClickMainButton
  have "ids_have_buffers (toggleAnalysis s)"
    using assms
    by (simp add: toggleAnalysis_def postMessage_def ids_have_buffers_def generate_ids_append)
  then show ?thesis
    using ClickMainButton assms
    by (simp add: step_def ids_have_buffers_triggerInference current_closure_def)
next
  case IntervalTick
  then show ?thesis using assms
    by (simp add: step_def ids_have_buffers_triggerInference current_closure_def)
next
  case LoopEffect
  then show ?thesis using assms
    by (simp add: step_def ids_have_buffers_triggerInference current_closure_def)
next
  case ClickLoadModel
  then show ?thesis using assms
    by (simp add: step_def loadModel_def postMessage_def ids_have_buffers_def
        generate_ids_append)
next
  case (EditPrompt i newText)
  have "list_all (\<lambda>p. outputs s (prompt_id p) \<noteq> None) (prompts s) \<Longrightarrow>
      list_all (\<lambda>p. outputs s (prompt_id p) \<noteq> None)
        (map (\<lambda>p. if prompt_id p = i then p\<lparr>prompt_text := newText\<rparr> else p) (prompts s))"
    by (induction "prompts s") (auto simp: list_all_iff)
  then show ?thesis using EditPrompt assms
    by (simp add: step_def updatePrompt_def ids_have_buffers_def)
next
  case (ClickClear i)
  have "ids_have_buffers (s\<lparr>outputs := (outputs s)(i \<mapsto> [])\<rparr>)"
    using assms by (rule ids_have_buffers_outputs) simp
  then show ?thesis using ClickClear assms by (simp add: step_def clearOutput_def)
qed (use assms in \<open>simp_all add: step_def handler_defs ids_have_buffers_def\<close>)

lemma ids_have_buffers_run: "ids_have_buffers s \<Longrightarrow> ids_have_buffers (run evs s)"
  by (induction evs arbitrary: s) (simp_all add: ids_have_buffers_step)

lemma dispatched_ids_have_buffers:
  assumes "reachable s" and "Generate m i \<in> set (posted s)"
  shows "outputs s i \<noteq> None"
proof -
  have "ids_have_buffers initial_core"
    by (simp add: ids_have_buffers_def initial_core_def initial_prompts_def)
  then have "ids_have_buffers s"
    using assms(1) ids_have_buffers_run unfolding reachable_def by blast
  then have a: "list_all (\<lambda>i. outputs s i \<noteq> None) (generate_ids (posted s))"
    by (simp add: ids_have_buffers_def)
  have "\<And>ms. Generate m i \<in> set ms \<Longrightarrow> i \<in> set (generate_ids ms)"
  proof -
    fix ms show "Generate m i \<in> set ms \<Longrightarrow> i \<in> set (generate_ids ms)"
      by (induction ms rule: generate_ids.induct) auto
  qed
  then show ?thesis using a assms(2) by (auto simp: list_all_iff)
qed

end
